theory Spec2Isabelle
  imports Main "HOL-Library.Word" "HOL-Library.Sublist"
begin

unbundle bit_operations_syntax

section \<open>Python values and errors\<close>

text \<open>
  The notebooks are Python scripts. An exception is a value of \<open>py_error\<close>; a call that may
  raise returns \<open>py_error + 'a\<close>, with \<open>Inl\<close> for the exception.
\<close>

datatype py_error =
    ValueError
  | KeyError string
  | TypeError
  | JSONDecodeError
  | OSError string
  | AttributeError
  | OverflowError
  | MemoryError
  | UnboundLocalError
  | SdkError string

section \<open>Semantic segmentation notebook: the colour palette\<close>

text \<open>
  \<^verbatim>\<open>getvocpalette(num_cls)\<close> allocates \<open>[0] * (n * 3)\<close> and, for each label \<open>j\<close> in
  \<open>range(0, n)\<close>, clears the three entries of the label and runs the \<open>while lab > 0\<close> loop.
  Python integers are unbounded, so \<open>lab\<close> and the palette entries are \<open>int\<close>; the counter
  \<open>i\<close> starts at 0 and only grows, so it is a \<open>nat\<close>. A left shift by a negative count
  raises \<open>ValueError\<close> in Python: that is the branch \<open>7 - i < 0\<close>.

  The allocation \<open>[0] * k\<close> gives the empty list for a negative \<open>k\<close>. On 64-bit CPython it
  raises \<open>OverflowError\<close> when \<open>k\<close> does not fit the index type (\<open>k \<ge> 2 ^ 63\<close>) and
  \<open>MemoryError\<close> when the list would have more than \<open>(2 ^ 63 - 1) div 8\<close> entries. A shorter
  list is taken to be allocated, which is so when the machine has the memory for it; the
  theorems about \<open>getvocpalette\<close> are stated for at most 256 classes, the number the
  notebook passes.
\<close>

definition list_repeat_zero :: "int \<Rightarrow> py_error + int list" where
  "list_repeat_zero k =
     (if 2 ^ 63 \<le> k then Inl OverflowError
      else if (2 ^ 63 - 1) div 8 < k then Inl MemoryError
      else Inr (replicate (nat k) 0))"

function voc_while :: "nat \<Rightarrow> int \<Rightarrow> nat \<Rightarrow> int list \<Rightarrow> py_error + int list" where
  "voc_while j lab i palette =
     (if lab > 0 then
        (if int 7 - int i < 0 then Inl ValueError
         else
           let p1 = palette[j * 3 + 0 := (palette ! (j * 3 + 0)) OR push_bit (7 - i) (drop_bit 0 lab AND 1)];
               p2 = p1[j * 3 + 1 := (p1 ! (j * 3 + 1)) OR push_bit (7 - i) (drop_bit 1 lab AND 1)];
               p3 = p2[j * 3 + 2 := (p2 ! (j * 3 + 2)) OR push_bit (7 - i) (drop_bit 2 lab AND 1)]
           in voc_while j (drop_bit 3 lab) (i + 1) p3)
      else Inr palette)"
  by pat_completeness auto
termination
  by (relation "measure (\<lambda>(j, lab, i, palette). nat lab)") (auto simp: drop_bit_eq_div)

declare voc_while.simps [simp del]

fun voc_for :: "nat list \<Rightarrow> int list \<Rightarrow> py_error + int list" where
  "voc_for [] palette = Inr palette"
| "voc_for (j # js) palette =
     (case voc_while j (int j) 0 (palette[j * 3 + 0 := 0, j * 3 + 1 := 0, j * 3 + 2 := 0]) of
        Inl e \<Rightarrow> Inl e
      | Inr palette' \<Rightarrow> voc_for js palette')"

definition getvocpalette :: "int \<Rightarrow> py_error + int list" where
  "getvocpalette num_cls =
     (let n = num_cls
      in case list_repeat_zero (n * 3) of
           Inl e \<Rightarrow> Inl e
         | Inr palette \<Rightarrow> voc_for [0 ..< nat n] palette)"

text \<open>
  The value one channel accumulates over the \<open>while\<close> loop, on its own: \<open>chan c lab i acc\<close>
  is what entry \<open>j * 3 + c\<close> holds when the loop that started with \<open>lab\<close>, \<open>i\<close> and the
  entry \<open>acc\<close> ends. It is used to state what the loop computes.
\<close>

function chan :: "nat \<Rightarrow> int \<Rightarrow> nat \<Rightarrow> int \<Rightarrow> int" where
  "chan c lab i acc =
     (if lab > 0 then chan c (drop_bit 3 lab) (i + 1) (acc OR push_bit (7 - i) (drop_bit c lab AND 1))
      else acc)"
  by pat_completeness auto
termination
  by (relation "measure (\<lambda>(c, lab, i, acc). nat lab)") (auto simp: drop_bit_eq_div)

declare chan.simps [simp del]

section \<open>JSON values and the response parsers\<close>

text \<open>
  What \<^verbatim>\<open>json.loads\<close> returns: \<open>None\<close>, a bool, an int, a float, a string, a list or a
  dict with string keys; \<open>PTuple\<close> is a Python tuple, which the parsers build. Floats are not
  interpreted by any notebook code modelled here, so their type is a parameter. A dict is
  an association list read with \<open>map_of\<close>.
\<close>

type_synonym bytes = "8 word list"

datatype 'f pyval =
    PNone
  | PBool bool
  | PInt int
  | PFloat 'f
  | PStr string
  | PList "'f pyval list"
  | PTuple "'f pyval list"
  | PDict "(string \<times> 'f pyval) list"

text \<open>
  \<^verbatim>\<open>obj[key]\<close> with a string key: a dict raises \<open>KeyError\<close> when the key is missing; every
  other value raises \<open>TypeError\<close> (not subscriptable, or indices must be integers).
\<close>

fun getitem_str :: "'f pyval \<Rightarrow> string \<Rightarrow> py_error + 'f pyval" where
  "getitem_str (PDict kvs) k = (case map_of kvs k of None \<Rightarrow> Inl (KeyError k) | Some v \<Rightarrow> Inr v)"
| "getitem_str PNone k = Inl TypeError"
| "getitem_str (PBool b) k = Inl TypeError"
| "getitem_str (PInt n) k = Inl TypeError"
| "getitem_str (PFloat x) k = Inl TypeError"
| "getitem_str (PStr t) k = Inl TypeError"
| "getitem_str (PList xs) k = Inl TypeError"
| "getitem_str (PTuple xs) k = Inl TypeError"





text \<open>
  \<^verbatim>\<open>parse_response\<close> of the question answering notebook, defined twice with the same body
  (once beside the pre-trained predictor, once beside the fine-tuned one):
  \<^verbatim>\<open>answer = (model_predictions["answer"],)\<close> builds a tuple of one item.
\<close>

definition parse_response_eqa ::
  "(bytes \<Rightarrow> py_error + 'f pyval) \<Rightarrow> bytes \<Rightarrow> py_error + 'f pyval" where
  "parse_response_eqa json_loads query_response =
     (case json_loads query_response of
        Inl e \<Rightarrow> Inl e
      | Inr model_predictions \<Rightarrow>
          (case getitem_str model_predictions ''answer'' of
             Inl e \<Rightarrow> Inl e
           | Inr v \<Rightarrow> (let answer = PTuple [v] in Inr answer)))"

section \<open>Filtering the model manifest\<close>

text \<open>
  The manifest is a JSON array of model descriptors, objects whose fields are strings
  (\<open>model_id\<close>, \<open>version\<close>, ...). A descriptor is an association list from field names to
  strings; \<^verbatim>\<open>model["model_id"]\<close> raises \<open>KeyError\<close> when the field is missing. Python's
  \<^verbatim>\<open>s in t\<close> on strings is the contiguous substring test, \<open>sublist\<close>.
\<close>

type_synonym descriptor = "(string \<times> string) list"

definition model_id_of :: "descriptor \<Rightarrow> py_error + string" where
  "model_id_of model =
     (case map_of model ''model_id'' of None \<Rightarrow> Inl (KeyError ''model_id'') | Some v \<Rightarrow> Inr v)"

text \<open>
  The loop of the text embedding notebook (the instance segmentation, semantic
  segmentation and image embedding notebooks run the same loop with their own task
  substring):
  \<^verbatim>\<open>for model in model_list: model_id = model["model_id"];
    if task in model_id and model_id not in models: models.append(model_id)\<close>
\<close>

fun manifest_loop :: "string \<Rightarrow> descriptor list \<Rightarrow> string list \<Rightarrow> py_error + string list" where
  "manifest_loop task [] models = Inr models"
| "manifest_loop task (model # rest) models =
     (case model_id_of model of
        Inl e \<Rightarrow> Inl e
      | Inr model_id \<Rightarrow>
          if sublist task model_id \<and> model_id \<notin> set models
          then manifest_loop task rest (models @ [model_id])
          else manifest_loop task rest models)"

definition text_embedding_models :: "descriptor list \<Rightarrow> py_error + string list" where
  "text_embedding_models model_list = manifest_loop ''-tcembedding-'' model_list []"

definition is_models :: "descriptor list \<Rightarrow> py_error + string list" where
  "is_models model_list = manifest_loop ''-is-'' model_list []"

definition semseg_models :: "descriptor list \<Rightarrow> py_error + string list" where
  "semseg_models model_list = manifest_loop ''-semseg-'' model_list []"

definition image_embedding_models :: "descriptor list \<Rightarrow> py_error + string list" where
  "image_embedding_models model_list = manifest_loop ''-icembedding-'' model_list []"

text \<open>
  The question answering notebook filters with a comprehension, which reads
  \<^verbatim>\<open>model["model_id"]\<close> in its condition and again in its result, and removes duplicates
  with a second comprehension that appends to \<open>eqa_models\<close>.
\<close>

fun eqa_models_all_versions :: "descriptor list \<Rightarrow> py_error + string list" where
  "eqa_models_all_versions [] = Inr []"
| "eqa_models_all_versions (model # rest) =
     (case model_id_of model of
        Inl e \<Rightarrow> Inl e
      | Inr cond_id \<Rightarrow>
          if sublist ''-eqa-'' cond_id
          then (case model_id_of model of
                  Inl e \<Rightarrow> Inl e
                | Inr model_id \<Rightarrow>
                    (case eqa_models_all_versions rest of
                       Inl e \<Rightarrow> Inl e
                     | Inr ids \<Rightarrow> Inr (model_id # ids)))
          else eqa_models_all_versions rest)"

fun append_unseen :: "string list \<Rightarrow> string list \<Rightarrow> string list" where
  "append_unseen [] eqa_models = eqa_models"
| "append_unseen (model # rest) eqa_models =
     (if model \<notin> set eqa_models then append_unseen rest (eqa_models @ [model])
      else append_unseen rest eqa_models)"

definition eqa_models :: "descriptor list \<Rightarrow> py_error + string list" where
  "eqa_models model_list =
     (case eqa_models_all_versions model_list of
        Inl e \<Rightarrow> Inl e
      | Inr all_versions \<Rightarrow> Inr (append_unseen all_versions []))"

text \<open>
  The selection in the words of its specification: the entries of \<open>ids\<close> that satisfy
  \<open>P\<close>, each taken at its first occurrence, in the order of \<open>ids\<close>.
\<close>

definition first_occurrences :: "('a \<Rightarrow> bool) \<Rightarrow> 'a list \<Rightarrow> 'a list" where
  "first_occurrences P ids =
     map (\<lambda>i. ids ! i) (filter (\<lambda>i. P (ids ! i) \<and> ids ! i \<notin> set (take i ids)) [0 ..< length ids])"

definition manifest_ids :: "descriptor list \<Rightarrow> string list" where
  "manifest_ids model_list = List.map_filter (\<lambda>model. map_of model ''model_id'') model_list"

section \<open>Calls into the SDK\<close>

text \<open>
  A call into the vendor SDK, the file system or the shell may change the world and may
  raise. It is a function from the world to a result and the new world; the world's type
  and the calls themselves are parameters of the notebook code.
\<close>

type_synonym ('a, 'w) sdk_call = "'w \<Rightarrow> (py_error + 'a) \<times> 'w"

type_synonym headers = "(string \<times> string) list"

text \<open>
  To observe which calls a helper issues, a call is wrapped so that it appends its
  argument to a log kept beside the world; \<open>passing\<close> lifts a call that is not observed.
\<close>

definition recording :: "('x \<Rightarrow> 'w \<Rightarrow> 'r \<times> 'w) \<Rightarrow> 'x \<Rightarrow> ('x list \<times> 'w) \<Rightarrow> 'r \<times> ('x list \<times> 'w)" where
  "recording f x s = (case s of (log, w) \<Rightarrow> (case f x w of (r, w') \<Rightarrow> (r, (log @ [x], w'))))"

definition passing :: "('x \<Rightarrow> 'w \<Rightarrow> 'r \<times> 'w) \<Rightarrow> 'x \<Rightarrow> ('l \<times> 'w) \<Rightarrow> 'r \<times> ('l \<times> 'w)" where
  "passing f x s = (case s of (log, w) \<Rightarrow> (case f x w of (r, w') \<Rightarrow> (r, (log, w'))))"

text \<open>
  \<open>tracing\<close> logs the result beside the argument, to state what a helper does with what
  a call returned.
\<close>

definition tracing ::
  "('x \<Rightarrow> 'w \<Rightarrow> 'r \<times> 'w) \<Rightarrow> 'x \<Rightarrow> (('x \<times> 'r) list \<times> 'w) \<Rightarrow> 'r \<times> (('x \<times> 'r) list \<times> 'w)" where
  "tracing f x s = (case s of (log, w) \<Rightarrow> (case f x w of (r, w') \<Rightarrow> (r, (log @ [(x, r)], w'))))"

subsection \<open>The query helpers\<close>

text \<open>
  \<^verbatim>\<open>query(model_predictor, text)\<close> of the text embedding notebook. \<^verbatim>\<open>json.dumps\<close> of a
  string and \<^verbatim>\<open>.encode("utf-8")\<close> of its ASCII result do not raise; they are parameters.
  \<open>predict\<close> takes the body and the headers as one argument.
\<close>

definition query_text ::
  "(bytes \<times> headers \<Rightarrow> (bytes, 'w) sdk_call) \<Rightarrow> (string \<Rightarrow> string) \<Rightarrow> (string \<Rightarrow> bytes) \<Rightarrow>
   string \<Rightarrow> (bytes, 'w) sdk_call" where
  "query_text predict json_dumps encode_utf8 text w =
     (let encoded_text = encode_utf8 (json_dumps text);
          query_response =
            predict (encoded_text,
                     [(''ContentType'', ''application/x-text''), (''Accept'', ''application/json'')]) w
      in query_response)"

text \<open>
  \<^verbatim>\<open>query_endpoint(encoded_text)\<close> of the question answering notebook; \<open>predict\<close> is that of
  \<open>base_model_predictor\<close> in the first definition and of \<open>finetuned_predictor\<close> in the
  second, which is otherwise the same code.
\<close>

definition query_endpoint_eqa ::
  "(bytes \<times> headers \<Rightarrow> (bytes, 'w) sdk_call) \<Rightarrow> bytes \<Rightarrow> (bytes, 'w) sdk_call" where
  "query_endpoint_eqa predict encoded_text w =
     (let response =
            predict (encoded_text,
                     [(''ContentType'', ''application/list-text''),
                      (''Accept'', ''application/json;verbose'')]) w
      in response)"

text \<open>The call site: \<^verbatim>\<open>query_endpoint(json.dumps(question_context).encode("utf-8"))\<close>.\<close>

definition eqa_query_call ::
  "(bytes \<times> headers \<Rightarrow> (bytes, 'w) sdk_call) \<Rightarrow> (string list \<Rightarrow> string) \<Rightarrow> (string \<Rightarrow> bytes) \<Rightarrow>
   string list \<Rightarrow> (bytes, 'w) sdk_call" where
  "eqa_query_call predict json_dumps encode_utf8 question_context w =
     query_endpoint_eqa predict (encode_utf8 (json_dumps question_context)) w"

text \<open>
  \<^verbatim>\<open>query(model_predictor, image_file_name)\<close> of the three image notebooks: the file is
  opened and read first, which raises when it cannot be; the notebooks differ in the
  \<open>Accept\<close> header only.
\<close>

definition query_image ::
  "string \<Rightarrow> (string \<Rightarrow> (bytes, 'w) sdk_call) \<Rightarrow> (bytes \<times> headers \<Rightarrow> (bytes, 'w) sdk_call) \<Rightarrow>
   string \<Rightarrow> (bytes, 'w) sdk_call" where
  "query_image accept read_file predict image_file_name w =
     (case read_file image_file_name w of
        (Inl e, w') \<Rightarrow> (Inl e, w')
      | (Inr input_img_rb, w') \<Rightarrow>
          predict (input_img_rb,
                   [(''ContentType'', ''application/x-image''), (''Accept'', accept)]) w')"

definition query_is ::
  "(string \<Rightarrow> (bytes, 'w) sdk_call) \<Rightarrow> (bytes \<times> headers \<Rightarrow> (bytes, 'w) sdk_call) \<Rightarrow>
   string \<Rightarrow> (bytes, 'w) sdk_call" where
  "query_is = query_image ''application/json;verbose;n_predictions=2''"

definition query_semseg ::
  "(string \<Rightarrow> (bytes, 'w) sdk_call) \<Rightarrow> (bytes \<times> headers \<Rightarrow> (bytes, 'w) sdk_call) \<Rightarrow>
   string \<Rightarrow> (bytes, 'w) sdk_call" where
  "query_semseg = query_image ''application/json;verbose''"

definition query_image_embedding ::
  "(string \<Rightarrow> (bytes, 'w) sdk_call) \<Rightarrow> (bytes \<times> headers \<Rightarrow> (bytes, 'w) sdk_call) \<Rightarrow>
   string \<Rightarrow> (bytes, 'w) sdk_call" where
  "query_image_embedding = query_image ''application/json''"

text \<open>
  \<^verbatim>\<open>query_endpoint(encoded_tabular_data)\<close> of the tabular regression notebook: it builds a
  \<open>runtime.sagemaker\<close> client, which may raise, and calls \<open>invoke_endpoint\<close> with the
  keyword arguments \<open>EndpointName\<close>, \<open>ContentType\<close> and \<open>Body\<close>.
\<close>

record invoke_request =
  EndpointName :: string
  ContentType :: string
  Body :: bytes

definition content_type :: string where
  "content_type = ''text/csv''"

definition query_endpoint_tabular ::
  "(string \<Rightarrow> ('c, 'w) sdk_call) \<Rightarrow> ('c \<times> invoke_request \<Rightarrow> ('r, 'w) sdk_call) \<Rightarrow>
   string \<Rightarrow> bytes \<Rightarrow> ('r, 'w) sdk_call" where
  "query_endpoint_tabular boto3_client invoke_endpoint endpoint_name encoded_tabular_data w =
     (case boto3_client ''runtime.sagemaker'' w of
        (Inl e, w') \<Rightarrow> (Inl e, w')
      | (Inr client, w') \<Rightarrow>
          invoke_endpoint
            (client, \<lparr>EndpointName = endpoint_name, ContentType = content_type,
                      Body = encoded_tabular_data\<rparr>) w')"

text \<open>The call site: \<^verbatim>\<open>query_endpoint(features.to_csv(header=False, index=False).encode("utf-8"))\<close>.\<close>

definition tabular_query_call ::
  "(string \<Rightarrow> ('c, 'w) sdk_call) \<Rightarrow> ('c \<times> invoke_request \<Rightarrow> ('r, 'w) sdk_call) \<Rightarrow>
   string \<Rightarrow> (string \<Rightarrow> bytes) \<Rightarrow> string \<Rightarrow> ('r, 'w) sdk_call" where
  "tabular_query_call boto3_client invoke_endpoint endpoint_name encode_utf8 features_csv w =
     query_endpoint_tabular boto3_client invoke_endpoint endpoint_name (encode_utf8 features_csv) w"

text \<open>
  The header formats in the words of the specification: the content types the notebooks
  name, and an \<open>Accept\<close> header \<open>application/json\<close>, possibly extended with \<open>;verbose\<close> and
  with \<open>;n_predictions=\<close> followed by digits.
\<close>

definition input_content_types :: "string set" where
  "input_content_types =
     {''application/x-text'', ''application/list-text'', ''application/x-image'', ''text/csv''}"

fun strip_prefix :: "string \<Rightarrow> string \<Rightarrow> string option" where
  "strip_prefix [] s = Some s"
| "strip_prefix (c # cs) [] = None"
| "strip_prefix (c # cs) (d # ds) = (if c = d then strip_prefix cs ds else None)"

definition is_digit :: "char \<Rightarrow> bool" where
  "is_digit c = (c \<in> set ''0123456789'')"

definition json_accept :: "string \<Rightarrow> bool" where
  "json_accept a =
     (case strip_prefix ''application/json'' a of
        None \<Rightarrow> False
      | Some r1 \<Rightarrow>
          (let r2 = (case strip_prefix '';verbose'' r1 of None \<Rightarrow> r1 | Some r \<Rightarrow> r)
           in r2 = [] \<or>
              (case strip_prefix '';n_predictions='' r2 of
                 None \<Rightarrow> False
               | Some ds \<Rightarrow> ds \<noteq> [] \<and> list_all is_digit ds)))"

definition selects_format :: "headers \<Rightarrow> bool" where
  "selects_format hs =
     ((case map_of hs ''ContentType'' of None \<Rightarrow> False | Some ct \<Rightarrow> ct \<in> input_content_types) \<and>
      (case map_of hs ''Accept'' of None \<Rightarrow> False | Some a \<Rightarrow> json_accept a))"

subsection \<open>The retry configuration of the lineage notebook\<close>

text \<open>
  \<^verbatim>\<open>config = Config(retries={"max_attempts": 50, "mode": "adaptive"})\<close> and
  \<^verbatim>\<open>sm_client = boto3.client("sagemaker", config=config)\<close>: the configuration is an
  argument of the SDK's client constructor.
\<close>

record retries =
  max_attempts :: nat
  mode :: string

definition config :: retries where
  "config = \<lparr>max_attempts = 50, mode = ''adaptive''\<rparr>"

definition sm_client :: "(string \<times> retries option \<Rightarrow> ('c, 'w) sdk_call) \<Rightarrow> ('c, 'w) sdk_call" where
  "sm_client boto3_client w = boto3_client (''sagemaker'', Some config) w"

section \<open>The lineage notebook\<close>

subsection \<open>Post-processing of a query result\<close>

text \<open>
  \<^verbatim>\<open>LineageQuery(...).query(...)\<close> returns an object with the lists \<open>vertices\<close> and
  \<open>edges\<close>. \<^verbatim>\<open>vertex.to_lineage_object()\<close> is an SDK call (it loads the artifact or context
  from the service, and raises for a trial component); \<^verbatim>\<open>.source.source_uri\<close> reads
  attributes of the object it returns, which raises when the object has none;
  \<^verbatim>\<open>vertex.arn\<close> reads an attribute every vertex has.
\<close>

record ('v, 'e) lineage_query_result =
  vertices :: "'v list"
  edges :: "'e list"

text \<open>
  What \<^verbatim>\<open>vertex.to_lineage_object().source.source_uri\<close> evaluates to, given what the call
  returned: the call's exception, or what reading the attributes of its object gives.
\<close>

definition source_uri_of :: "('o \<Rightarrow> py_error + string) \<Rightarrow> py_error + 'o \<Rightarrow> py_error + string" where
  "source_uri_of source_uri res = (case res of Inl e \<Rightarrow> Inl e | Inr obj \<Rightarrow> source_uri obj)"

text \<open>
  \<^verbatim>\<open>for vertex in query_result.vertices:
      artifacts.append(vertex.to_lineage_object().source.source_uri)\<close>
\<close>

fun source_uri_loop ::
  "('v \<Rightarrow> ('o, 'w) sdk_call) \<Rightarrow> ('o \<Rightarrow> py_error + string) \<Rightarrow> 'v list \<Rightarrow> string list \<Rightarrow> (string list, 'w) sdk_call" where
  "source_uri_loop to_lineage_object source_uri [] artifacts w = (Inr artifacts, w)"
| "source_uri_loop to_lineage_object source_uri (vertex # rest) artifacts w =
     (case to_lineage_object vertex w of
        (Inl e, w') \<Rightarrow> (Inl e, w')
      | (Inr obj, w') \<Rightarrow>
          (case source_uri obj of
             Inl e \<Rightarrow> (Inl e, w')
           | Inr uri \<Rightarrow> source_uri_loop to_lineage_object source_uri rest (artifacts @ [uri]) w'))"

text \<open>
  \<^verbatim>\<open>for vertex in query_result.vertices:
      try: artifacts.append(vertex.to_lineage_object().source.source_uri)
      except: artifacts.append(vertex.arn)\<close>
\<close>

fun source_uri_or_arn_loop ::
  "('v \<Rightarrow> ('o, 'w) sdk_call) \<Rightarrow> ('o \<Rightarrow> py_error + string) \<Rightarrow> ('v \<Rightarrow> string) \<Rightarrow> 'v list \<Rightarrow> string list \<Rightarrow>
   (string list, 'w) sdk_call" where
  "source_uri_or_arn_loop to_lineage_object source_uri arn [] artifacts w = (Inr artifacts, w)"
| "source_uri_or_arn_loop to_lineage_object source_uri arn (vertex # rest) artifacts w =
     (case to_lineage_object vertex w of
        (Inl e, w') \<Rightarrow>
          source_uri_or_arn_loop to_lineage_object source_uri arn rest (artifacts @ [arn vertex]) w'
      | (Inr obj, w') \<Rightarrow>
          (case source_uri obj of
             Inl e \<Rightarrow>
               source_uri_or_arn_loop to_lineage_object source_uri arn rest (artifacts @ [arn vertex]) w'
           | Inr uri \<Rightarrow>
               source_uri_or_arn_loop to_lineage_object source_uri arn rest (artifacts @ [uri]) w'))"

text \<open>\<^verbatim>\<open>for vertex in query_result.vertices: trial_components.append(vertex.arn)\<close>\<close>

fun arn_loop :: "('v \<Rightarrow> string) \<Rightarrow> 'v list \<Rightarrow> string list \<Rightarrow> string list" where
  "arn_loop arn [] trial_components = trial_components"
| "arn_loop arn (vertex # rest) trial_components = arn_loop arn rest (trial_components @ [arn vertex])"

text \<open>The cells: each starts from an empty list and walks \<open>query_result.vertices\<close>.\<close>

definition dataset_artifacts ::
  "('v \<Rightarrow> ('o, 'w) sdk_call) \<Rightarrow> ('o \<Rightarrow> py_error + string) \<Rightarrow> ('v, 'e) lineage_query_result \<Rightarrow>
   (string list, 'w) sdk_call" where
  "dataset_artifacts to_lineage_object source_uri query_result w =
     source_uri_loop to_lineage_object source_uri (vertices query_result) [] w"

definition model_artifacts ::
  "('v \<Rightarrow> ('o, 'w) sdk_call) \<Rightarrow> ('o \<Rightarrow> py_error + string) \<Rightarrow> ('v, 'e) lineage_query_result \<Rightarrow>
   (string list, 'w) sdk_call" where
  "model_artifacts to_lineage_object source_uri query_result w =
     source_uri_loop to_lineage_object source_uri (vertices query_result) [] w"

definition trial_components :: "('v \<Rightarrow> string) \<Rightarrow> ('v, 'e) lineage_query_result \<Rightarrow> string list" where
  "trial_components arn query_result = arn_loop arn (vertices query_result) []"

definition ascendant_artifacts ::
  "('v \<Rightarrow> ('o, 'w) sdk_call) \<Rightarrow> ('o \<Rightarrow> py_error + string) \<Rightarrow> ('v \<Rightarrow> string) \<Rightarrow>
   ('v, 'e) lineage_query_result \<Rightarrow> (string list, 'w) sdk_call" where
  "ascendant_artifacts to_lineage_object source_uri arn query_result w =
     source_uri_or_arn_loop to_lineage_object source_uri arn (vertices query_result) [] w"

definition descendant_artifacts ::
  "('v \<Rightarrow> ('o, 'w) sdk_call) \<Rightarrow> ('o \<Rightarrow> py_error + string) \<Rightarrow> ('v \<Rightarrow> string) \<Rightarrow>
   ('v, 'e) lineage_query_result \<Rightarrow> (string list, 'w) sdk_call" where
  "descendant_artifacts to_lineage_object source_uri arn query_result w =
     source_uri_or_arn_loop to_lineage_object source_uri arn (vertices query_result) [] w"

text \<open>
  The cell that collects \<open>associations\<close> walks the result of a descendants query and then,
  appending to the same list, the result of an ascendants query.
\<close>

definition associations ::
  "('v \<Rightarrow> ('o, 'w) sdk_call) \<Rightarrow> ('o \<Rightarrow> py_error + string) \<Rightarrow> ('v, 'e) lineage_query_result \<Rightarrow>
   ('v, 'e) lineage_query_result \<Rightarrow> (string list, 'w) sdk_call" where
  "associations to_lineage_object source_uri descendants ascendants w =
     (case source_uri_loop to_lineage_object source_uri (vertices descendants) [] w of
        (Inl e, w') \<Rightarrow> (Inl e, w')
      | (Inr found, w') \<Rightarrow>
          source_uri_loop to_lineage_object source_uri (vertices ascendants) found w')"

subsection \<open>The package installation helpers\<close>











subsection \<open>Deleting the experiment\<close>





section \<open>The notebooks as sequences of calls\<close>































section \<open>Verification: the colour palette\<close>

lemma chan_bit:
  "0 \<le> lab \<Longrightarrow> lab < 8 ^ (8 - i) \<Longrightarrow> i \<le> 8 \<Longrightarrow>
   bit (chan c lab i acc) m \<longleftrightarrow> bit acc m \<or> (m + i \<le> 7 \<and> bit lab (3 * (7 - i - m) + c))"
proof (induction c lab i acc rule: chan.induct)
  case (1 c lab i acc)
  show ?case
  proof (cases "lab > 0")
    case False
    with 1 have "lab = 0" by simp
    then show ?thesis by (simp add: chan.simps)
  next
    case True
    with 1 have i7: "i \<le> 7" by (cases "i = 8") auto
    have d: "drop_bit 3 lab < 8 ^ (8 - (i + 1))"
    proof -
      have "8 - i = Suc (8 - (i+1))" using i7 by simp
      then have "lab < 8 * 8 ^ (8 - (i+1))" using 1(3) by simp
      then show ?thesis by (simp add: drop_bit_eq_div)
    qed
    have ih: "bit (chan c (drop_bit 3 lab) (i + 1) (acc OR push_bit (7 - i) (drop_bit c lab AND 1))) m
       \<longleftrightarrow> bit (acc OR push_bit (7 - i) (drop_bit c lab AND 1)) m \<or>
           (m + (i+1) \<le> 7 \<and> bit (drop_bit 3 lab) (3 * (7 - (i+1) - m) + c))"
      using 1(1)[OF True _ d] 1(2) i7 by (simp add: drop_bit_eq_div)
    have pb: "bit (push_bit (7 - i) (drop_bit c lab AND 1)) m \<longleftrightarrow> (m = 7 - i \<and> bit lab c)"
      by (auto simp: bit_simps bit_1_iff)
    have step: "chan c lab i acc = chan c (drop_bit 3 lab) (i + 1) (acc OR push_bit (7 - i) (drop_bit c lab AND 1))"
      using True by (subst chan.simps) simp
    have main: "bit (chan c lab i acc) m \<longleftrightarrow>
        bit acc m \<or> (m = 7 - i \<and> bit lab c) \<or>
        (m + (i+1) \<le> 7 \<and> bit lab (3 + (3 * (7 - (i+1) - m) + c)))"
      unfolding step ih bit_or_iff pb bit_drop_bit_eq by (auto simp: comp_def)
    consider (lt) "m + i \<le> 6" | (eq) "m + i = 7" | (gt) "m + i > 7" by linarith
    then show ?thesis
    proof cases
      case lt
      then have e: "3 + (3 * (7 - (i+1) - m) + c) = 3 * (7 - i - m) + c" by simp
      have b: "bit lab (3 + (3 * (7 - (i+1) - m) + c)) = bit lab (3 * (7 - i - m) + c)"
        by (simp only: e)
      from lt have "m \<noteq> 7 - i" "m + (i+1) \<le> 7" "m + i \<le> 7" by simp_all
      then show ?thesis unfolding main b by blast
    next
      case eq
      then have "m = 7 - i" "7 - i - m = 0" "\<not> m + (i+1) \<le> 7" "m + i \<le> 7" by simp_all
      then show ?thesis unfolding main by simp
    next
      case gt
      then have "m \<noteq> 7 - i" "\<not> m + (i+1) \<le> 7" "\<not> m + i \<le> 7" using i7 by simp_all
      then show ?thesis unfolding main by simp
    qed
  qed
qed


lemma chan_range:
  "0 \<le> acc \<Longrightarrow> acc < 256 \<Longrightarrow> 0 \<le> chan c lab i acc \<and> chan c lab i acc < 256"
proof (induction c lab i acc rule: chan.induct)
  case (1 c lab i acc)
  show ?case
  proof (cases "lab > 0")
    case False
    then show ?thesis using 1(2,3) by (simp add: chan.simps)
  next
    case True
    let ?x = "push_bit (7 - i) (drop_bit c lab AND 1)"
    have "drop_bit c lab AND 1 = 0 \<or> drop_bit c lab AND 1 = 1"
      by (simp add: and_one_eq) presburger
    then have x0: "0 \<le> ?x" and x1: "?x \<le> 2 ^ (7 - i)"
      by (auto simp: push_bit_eq_mult)
    have "(2::int) ^ (7 - i) \<le> 2 ^ 7" by (rule power_increasing) simp_all
    with x1 have x2: "?x < 2 ^ 8" by simp
    have "acc OR ?x < 2 ^ 8"
      using 1(2,3) x2 by (intro OR_upper) simp_all
    moreover have "0 \<le> acc OR ?x" using 1(2) x0 by simp
    ultimately have "0 \<le> chan c (drop_bit 3 lab) (i + 1) (acc OR ?x) \<and>
        chan c (drop_bit 3 lab) (i + 1) (acc OR ?x) < 256"
      using 1(1)[OF True] by simp
    then show ?thesis using True by (subst (1 2) chan.simps) simp
  qed
qed

lemma voc_while_chan:
  "j * 3 + 2 < length p \<Longrightarrow> lab < 8 ^ (8 - i) \<Longrightarrow> i \<le> 8 \<Longrightarrow>
   voc_while j lab i p =
     Inr (p[j * 3 := chan 0 lab i (p ! (j * 3)),
            j * 3 + 1 := chan 1 lab i (p ! (j * 3 + 1)),
            j * 3 + 2 := chan 2 lab i (p ! (j * 3 + 2))])"
proof (induction j lab i p rule: voc_while.induct)
  case (1 j lab i p)
  show ?case
  proof (cases "lab > 0")
    case False
    then show ?thesis by (simp add: voc_while.simps chan.simps)
  next
    case True
    with 1(3,4) have i7: "i \<le> 7" by (cases "i = 8") auto
    have d: "drop_bit 3 lab < 8 ^ (8 - (i + 1))"
    proof -
      have "8 - i = Suc (8 - (i+1))" using i7 by simp
      then have "lab < 8 * 8 ^ (8 - (i+1))" using 1(3) by simp
      then show ?thesis by (simp add: drop_bit_eq_div)
    qed
    define p1 where "p1 = p[j * 3 + 0 := (p ! (j * 3 + 0)) OR push_bit (7 - i) (drop_bit 0 lab AND 1)]"
    define p2 where "p2 = p1[j * 3 + 1 := (p1 ! (j * 3 + 1)) OR push_bit (7 - i) (drop_bit 1 lab AND 1)]"
    define p3 where "p3 = p2[j * 3 + 2 := (p2 ! (j * 3 + 2)) OR push_bit (7 - i) (drop_bit 2 lab AND 1)]"
    have len: "j * 3 + 2 < length p3" using 1(2) by (simp add: p1_def p2_def p3_def)
    have ni: "\<not> int 7 - int i < 0" using i7 by simp
    have ih: "voc_while j (drop_bit 3 lab) (i + 1) p3 =
        Inr (p3[j * 3 := chan 0 (drop_bit 3 lab) (i + 1) (p3 ! (j * 3)),
            j * 3 + 1 := chan 1 (drop_bit 3 lab) (i + 1) (p3 ! (j * 3 + 1)),
            j * 3 + 2 := chan 2 (drop_bit 3 lab) (i + 1) (p3 ! (j * 3 + 2))])"
      using 1(1)[OF True ni p1_def p2_def p3_def len d] i7 by simp
    have unf: "voc_while j lab i p = voc_while j (drop_bit 3 lab) (i + 1) p3"
      using True ni by (subst voc_while.simps) (simp add: p1_def p2_def p3_def Let_def)
    have c0: "chan 0 lab i (p ! (j * 3)) = chan 0 (drop_bit 3 lab) (i + 1) (p3 ! (j * 3))"
      using True 1(2) by (subst chan.simps) (simp add: p1_def p2_def p3_def)
    have c1: "chan 1 lab i (p ! (j * 3 + 1)) = chan 1 (drop_bit 3 lab) (i + 1) (p3 ! (j * 3 + 1))"
      using True 1(2) by (subst chan.simps) (simp add: p1_def p2_def p3_def)
    have c2: "chan 2 lab i (p ! (j * 3 + 2)) = chan 2 (drop_bit 3 lab) (i + 1) (p3 ! (j * 3 + 2))"
      using True 1(2) by (subst chan.simps) (simp add: p1_def p2_def p3_def)
    show ?thesis unfolding unf ih c0 c1 c2
      using 1(2) by (auto simp: list_eq_iff_nth_eq nth_list_update p1_def p2_def p3_def)
  qed
qed


lemma voc_for_chan:
  "\<forall>j\<in>set js. j * 3 + 2 < length p \<and> int j < 8 ^ 8 \<Longrightarrow>
   \<exists>p'. voc_for js p = Inr p' \<and> length p' = length p \<and>
     (\<forall>k<length p. p' ! k =
        (if k div 3 \<in> set js then chan (k mod 3) (int (k div 3)) 0 0 else p ! k))"
proof (induction js arbitrary: p)
  case Nil
  then show ?case by simp
next
  case (Cons j js)
  define q where "q = p[j * 3 + 0 := 0, j * 3 + 1 := 0, j * 3 + 2 := 0]"
  define r where "r = q[j * 3 := chan 0 (int j) 0 (q ! (j * 3)),
            j * 3 + 1 := chan 1 (int j) 0 (q ! (j * 3 + 1)),
            j * 3 + 2 := chan 2 (int j) 0 (q ! (j * 3 + 2))]"
  have jl: "j * 3 + 2 < length p" and jb: "int j < 8 ^ 8" using Cons.prems by simp_all
  have lq: "length q = length p" by (simp add: q_def)
  have lr: "length r = length p" by (simp add: r_def lq)
  have w: "voc_while j (int j) 0 q = Inr r"
    unfolding r_def using jl jb lq by (intro voc_while_chan) simp_all
  have rk: "r ! k = (if k div 3 = j then chan (k mod 3) (int j) 0 0 else p ! k)" if "k < length p" for k
  proof -
    consider "k = j * 3" | "k = j * 3 + 1" | "k = j * 3 + 2" | "k div 3 \<noteq> j" by arith
    then show ?thesis
    proof cases
      case 1
      then have "k div 3 = j" "k mod 3 = 0" by simp_all
      then show ?thesis using 1 jl by (simp add: r_def q_def)
    next
      case 2
      then have "k div 3 = j" "k mod 3 = 1" by arith+
      then show ?thesis using 2 jl by (simp add: r_def q_def)
    next
      case 3
      then have "k div 3 = j" "k mod 3 = 2" by arith+
      then show ?thesis using 3 jl by (simp add: r_def q_def)
    next
      case 4
      then have "k \<noteq> j * 3" "k \<noteq> j * 3 + 1" "k \<noteq> j * 3 + 2" by auto
      then show ?thesis using 4 by (simp add: r_def q_def)
    qed
  qed
  have "\<forall>j\<in>set js. j * 3 + 2 < length r \<and> int j < 8 ^ 8"
    using Cons.prems lr by simp
  from Cons.IH[OF this] obtain p' where p': "voc_for js r = Inr p'" "length p' = length r"
     "\<forall>k<length r. p' ! k =
        (if k div 3 \<in> set js then chan (k mod 3) (int (k div 3)) 0 0 else r ! k)"
    by blast
  have "voc_for (j # js) p = Inr p'" using w p'(1) by (simp add: q_def)
  moreover have "length p' = length p" using p'(2) lr by simp
  moreover have "\<forall>k<length p. p' ! k =
        (if k div 3 \<in> set (j # js) then chan (k mod 3) (int (k div 3)) 0 0 else p ! k)"
    using p'(3) lr rk by auto
  ultimately show ?case by blast
qed

lemma getvocpalette_chan:
  assumes "0 \<le> n" "n \<le> 16777216"
  shows "\<exists>p. getvocpalette n = Inr p \<and> length p = nat (n * 3) \<and>
     (\<forall>k<length p. p ! k = chan (k mod 3) (int (k div 3)) 0 0)"
proof -
  define p0 where "p0 = replicate (nat (n * 3)) (0::int)"
  have l0: "length p0 = nat n * 3" using assms by (simp add: p0_def nat_mult_distrib)
  have "\<forall>j\<in>set [0 ..< nat n]. j * 3 + 2 < length p0 \<and> int j < 8 ^ 8"
    using assms l0 by auto
  from voc_for_chan[OF this] obtain p where p: "voc_for [0 ..< nat n] p0 = Inr p"
    "length p = length p0"
    "\<forall>k<length p0. p ! k =
        (if k div 3 \<in> set [0 ..< nat n] then chan (k mod 3) (int (k div 3)) 0 0 else p0 ! k)"
    by blast
  have "list_repeat_zero (n * 3) = Inr p0"
    using assms by (simp add: list_repeat_zero_def p0_def)
  then have "getvocpalette n = Inr p" using p(1) by (simp add: getvocpalette_def)
  moreover have "length p = nat (n * 3)" using p(2) by (simp add: p0_def)
  moreover have "\<forall>k<length p. p ! k = chan (k mod 3) (int (k div 3)) 0 0"
  proof (intro allI impI)
    fix k assume "k < length p"
    then have k: "k < nat n * 3" using p(2) l0 by simp
    then have "k div 3 < nat n" by (simp add: less_mult_imp_div_less)
    then show "p ! k = chan (k mod 3) (int (k div 3)) 0 0" using p(3) k l0 by simp
  qed
  ultimately show ?thesis by blast
qed

lemma chan_inj:
  assumes a: "a < 16777216" and b: "b < 16777216"
    and e: "\<forall>c<3. chan c (int a) 0 0 = chan c (int b) 0 0"
  shows "a = b"
proof -
  have bits: "bit (int a) q = bit (int b) q" for q
  proof (cases "q < 24")
    case True
    define k where "k = q div 3"
    define c where "c = q mod 3"
    have q: "q = 3 * k + c" and c3: "c < 3" and k8: "k \<le> 7"
      using True by (simp_all add: k_def c_def) 
    have "bit (chan c (int a) 0 0) (7 - k) = bit (chan c (int b) 0 0) (7 - k)"
      using e c3 by simp
    moreover have "bit (chan c (int x) 0 0) (7 - k) = bit (int x) q" if "x < 16777216" for x
      using that k8 chan_bit[of "int x" 0 c 0 "7 - k"] by (simp add: q)
    ultimately show ?thesis using a b by simp
  next
    case False
    then have "(2::nat) ^ 24 \<le> 2 ^ q" by (intro power_increasing) simp_all
    then have "a < 2 ^ q" "b < 2 ^ q" using a b by simp_all
    then have "\<not> bit a q" "\<not> bit b q" by (simp_all add: bit_iff_odd)
    then show ?thesis by (simp add: bit_of_nat_iff_bit)
  qed
  then have "int a = int b" by (rule bit_eqI)
  then show ?thesis by simp
qed


text \<open>
  Claim C8. For every \<open>n\<close> with \<open>0 \<le> n \<le> 256\<close>, \<open>getvocpalette n\<close> returns a list of
  exactly \<open>3 * n\<close> integers, each between 0 and 255; the three entries of label 0 are 0;
  and two labels below \<open>n\<close> with the same three entries are the same label.
\<close>

theorem getvocpalette_palette:
  assumes "0 \<le> n" and "n \<le> 256"
  shows "\<exists>p. getvocpalette n = Inr p \<and> length p = nat (3 * n) \<and>
     (\<forall>x\<in>set p. 0 \<le> x \<and> x \<le> 255) \<and>
     (0 < n \<longrightarrow> take 3 p = [0, 0, 0]) \<and>
     (\<forall>j1<nat n. \<forall>j2<nat n.
        p ! (3 * j1) = p ! (3 * j2) \<and> p ! (3 * j1 + 1) = p ! (3 * j2 + 1) \<and>
        p ! (3 * j1 + 2) = p ! (3 * j2 + 2) \<longrightarrow> j1 = j2)"
proof -
  from assms have "n \<le> 16777216" by simp
  from getvocpalette_chan[OF assms(1) this] obtain p where
    p: "getvocpalette n = Inr p" "length p = nat (n * 3)"
       "\<forall>k<length p. p ! k = chan (k mod 3) (int (k div 3)) 0 0"
    by blast
  have len: "length p = nat (3 * n)" using p(2) by (simp add: mult.commute)
  have len': "length p = 3 * nat n" using p(2) assms(1) by (simp add: nat_mult_distrib)
  have rng: "\<forall>x\<in>set p. 0 \<le> x \<and> x \<le> 255"
  proof
    fix x assume "x \<in> set p"
    then obtain k where k: "k < length p" "x = p ! k" by (auto simp: in_set_conv_nth)
    have "0 \<le> chan (k mod 3) (int (k div 3)) 0 0 \<and> chan (k mod 3) (int (k div 3)) 0 0 < 256"
      by (rule chan_range) simp_all
    then show "0 \<le> x \<and> x \<le> 255" using k p(3) by simp
  qed
  have zero: "take 3 p = [0, 0, 0]" if "0 < n"
  proof -
    from that have l3: "3 \<le> length p" using len' by simp
    have c0: "chan c 0 0 0 = 0" for c by (simp add: chan.simps)
    from l3 have ne: "0 < length p" "1 < length p" "2 < length p" by linarith+
    have "p ! 0 = 0" "p ! Suc 0 = 0" "p ! Suc (Suc 0) = 0"
      using p(3)[rule_format, OF ne(1)] p(3)[rule_format, OF ne(2)] p(3)[rule_format, OF ne(3)]
      by (simp_all add: c0 numeral_2_eq_2)
    then show ?thesis using l3
      by (auto simp: list_eq_iff_nth_eq less_Suc_eq numeral_3_eq_3)
  qed
  have inj: "j1 = j2"
    if "j1 < nat n" "j2 < nat n" "p ! (3 * j1) = p ! (3 * j2)"
       "p ! (3 * j1 + 1) = p ! (3 * j2 + 1)" "p ! (3 * j1 + 2) = p ! (3 * j2 + 2)" for j1 j2
  proof -
    have ent: "p ! (3 * j + c) = chan c (int j) 0 0" if "j < nat n" "c < 3" for j c
    proof -
      have "3 * j + c < length p" using that len' by simp
      moreover have "(3 * j + c) mod 3 = c" "(3 * j + c) div 3 = j" using that(2) by simp_all
      ultimately show ?thesis using p(3) by simp
    qed
    have "\<forall>c<3. chan c (int j1) 0 0 = chan c (int j2) 0 0"
    proof (intro allI impI)
      fix c :: nat assume c: "c < 3"
      then consider "c = 0" | "c = 1" | "c = 2" by linarith
      then have "p ! (3 * j1 + c) = p ! (3 * j2 + c)" using that(3-5) by cases simp_all
      then show "chan c (int j1) 0 0 = chan c (int j2) 0 0" using ent that(1,2) c by simp
    qed
    moreover have "j1 < 16777216" "j2 < 16777216" using that(1,2) assms(2) by simp_all
    ultimately show ?thesis by (intro chan_inj) simp_all
  qed
  show ?thesis using p(1) len rng zero inj by blast
qed

theorem getvocpalette_palette_witness:
  "(0::int) \<le> 3 \<and> (3::int) \<le> 256 \<and>
   (\<exists>p. getvocpalette 3 = Inr p \<and> length p = nat (3 * 3) \<and>
     (\<forall>x\<in>set p. 0 \<le> x \<and> x \<le> 255) \<and>
     (0 < (3::int) \<longrightarrow> take 3 p = [0, 0, 0]) \<and>
     (\<forall>j1<nat 3. \<forall>j2<nat 3.
        p ! (3 * j1) = p ! (3 * j2) \<and> p ! (3 * j1 + 1) = p ! (3 * j2 + 1) \<and>
        p ! (3 * j1 + 2) = p ! (3 * j2 + 2) \<longrightarrow> j1 = j2))"
proof -
  have h1: "(0::int) \<le> 3" and h2: "(3::int) \<le> 256" by simp_all
  show ?thesis using h1 h2 getvocpalette_palette[OF h1 h2] by blast
qed

section \<open>Verification: filtering the manifest\<close>

lemma manifest_loop_append:
  "manifest_loop task (xs @ ys) acc =
     (case manifest_loop task xs acc of Inl e \<Rightarrow> Inl e | Inr acc' \<Rightarrow> manifest_loop task ys acc')"
  by (induction xs arbitrary: acc) (auto split: sum.splits)

lemma first_occurrences_snoc:
  "first_occurrences P (ids @ [x]) =
     first_occurrences P ids @ (if P x \<and> x \<notin> set ids then [x] else [])"
proof -
  have "filter (\<lambda>i. P ((ids @ [x]) ! i) \<and> (ids @ [x]) ! i \<notin> set (take i (ids @ [x]))) [0 ..< length ids]
      = filter (\<lambda>i. P (ids ! i) \<and> ids ! i \<notin> set (take i ids)) [0 ..< length ids]"
    by (rule filter_cong) (auto simp: nth_append)
  moreover have "map (\<lambda>i. (ids @ [x]) ! i) (filter (\<lambda>i. P (ids ! i) \<and> ids ! i \<notin> set (take i ids)) [0 ..< length ids])
      = map (\<lambda>i. ids ! i) (filter (\<lambda>i. P (ids ! i) \<and> ids ! i \<notin> set (take i ids)) [0 ..< length ids])"
    by (rule map_cong) (auto simp: nth_append)
  ultimately show ?thesis
    by (simp add: first_occurrences_def)
qed

lemma first_occurrences_Nil: "first_occurrences P [] = []"
  by (simp add: first_occurrences_def)

lemma set_first_occurrences: "set (first_occurrences P ids) = {x \<in> set ids. P x}"
proof (induction ids rule: rev_induct)
  case Nil
  show ?case by (simp add: first_occurrences_Nil)
next
  case (snoc x xs)
  then show ?case by (auto simp: first_occurrences_snoc)
qed

lemma distinct_first_occurrences: "distinct (first_occurrences P ids)"
proof (induction ids rule: rev_induct)
  case Nil
  show ?case by (simp add: first_occurrences_Nil)
next
  case (snoc x xs)
  then show ?case by (auto simp: first_occurrences_snoc set_first_occurrences)
qed

lemma manifest_ids_snoc:
  "manifest_ids (ms @ [m]) = manifest_ids ms @ (case map_of m ''model_id'' of None \<Rightarrow> [] | Some v \<Rightarrow> [v])"
  by (simp add: manifest_ids_def map_filter_def split: option.splits)

lemma manifest_loop_first_occurrences:
  "\<forall>m\<in>set model_list. map_of m ''model_id'' \<noteq> None \<Longrightarrow>
   manifest_loop task model_list [] = Inr (first_occurrences (sublist task) (manifest_ids model_list))"
proof (induction model_list rule: rev_induct)
  case Nil
  then show ?case by (simp add: first_occurrences_Nil manifest_ids_def map_filter_def)
next
  case (snoc m ms)
  then obtain v where v: "map_of m ''model_id'' = Some v" by auto
  have ih: "manifest_loop task ms [] = Inr (first_occurrences (sublist task) (manifest_ids ms))"
    using snoc by simp
  show ?case
    by (simp add: manifest_loop_append ih manifest_ids_snoc v first_occurrences_snoc
        set_first_occurrences model_id_of_def)
qed


lemma append_unseen_append:
  "append_unseen (xs @ ys) acc = append_unseen ys (append_unseen xs acc)"
  by (induction xs arbitrary: acc) auto

lemma append_unseen_first_occurrences:
  "append_unseen xs [] = first_occurrences (\<lambda>x. True) xs"
proof (induction xs rule: rev_induct)
  case Nil
  show ?case by (simp add: first_occurrences_Nil)
next
  case (snoc x xs)
  then show ?case
    by (simp add: append_unseen_append first_occurrences_snoc set_first_occurrences)
qed

lemma first_occurrences_filter:
  "first_occurrences (\<lambda>x. True) (filter P ids) = first_occurrences P ids"
proof (induction ids rule: rev_induct)
  case Nil
  show ?case by (simp add: first_occurrences_Nil)
next
  case (snoc x xs)
  then show ?case by (simp add: first_occurrences_snoc)
qed

lemma eqa_models_all_versions_filter:
  "\<forall>m\<in>set model_list. map_of m ''model_id'' \<noteq> None \<Longrightarrow>
   eqa_models_all_versions model_list = Inr (filter (sublist ''-eqa-'') (manifest_ids model_list))"
proof (induction model_list)
  case Nil
  show ?case by (simp add: manifest_ids_def map_filter_def)
next
  case (Cons m ms)
  then obtain v where v: "map_of m ''model_id'' = Some v" by auto
  have "manifest_ids (m # ms) = v # manifest_ids ms"
    by (simp add: manifest_ids_def map_filter_def v)
  then show ?case using Cons by (simp add: model_id_of_def v)
qed

text \<open>
  Claim C9. For a manifest whose descriptors all have a \<open>model_id\<close> field, the filtering
  code of the text embedding notebook and that of the question answering notebook return
  exactly the model ids of the manifest that contain the task substring, each once, in
  the order of their first occurrence in the manifest.
\<close>

theorem manifest_filter_first_occurrences:
  assumes "\<forall>model\<in>set model_list. map_of model ''model_id'' \<noteq> None"
  shows "\<exists>te eqa.
     text_embedding_models model_list = Inr te \<and> eqa_models model_list = Inr eqa \<and>
     set te = {x \<in> set (manifest_ids model_list). sublist ''-tcembedding-'' x} \<and>
     set eqa = {x \<in> set (manifest_ids model_list). sublist ''-eqa-'' x} \<and>
     distinct te \<and> distinct eqa \<and>
     te = first_occurrences (sublist ''-tcembedding-'') (manifest_ids model_list) \<and>
     eqa = first_occurrences (sublist ''-eqa-'') (manifest_ids model_list)"
proof -
  have te: "text_embedding_models model_list =
      Inr (first_occurrences (sublist ''-tcembedding-'') (manifest_ids model_list))"
    unfolding text_embedding_models_def by (rule manifest_loop_first_occurrences[OF assms])
  have eqa: "eqa_models model_list =
      Inr (first_occurrences (sublist ''-eqa-'') (manifest_ids model_list))"
    by (simp add: eqa_models_def eqa_models_all_versions_filter[OF assms]
        append_unseen_first_occurrences first_occurrences_filter)
  show ?thesis
    unfolding te eqa by (simp add: set_first_occurrences distinct_first_occurrences)
qed

theorem manifest_filter_first_occurrences_witness:
  "text_embedding_models [[(''model_id'', ''a-eqa-b''), (''version'', ''1.0.0'')],
                   [(''model_id'', ''x-tcembedding-y'')],
                   [(''version'', ''1.0.1''), (''model_id'', ''a-eqa-b'')]] =
     Inr (first_occurrences (sublist ''-tcembedding-'')
           (manifest_ids [[(''model_id'', ''a-eqa-b''), (''version'', ''1.0.0'')],
                   [(''model_id'', ''x-tcembedding-y'')],
                   [(''version'', ''1.0.1''), (''model_id'', ''a-eqa-b'')]])) \<and>
   eqa_models [[(''model_id'', ''a-eqa-b''), (''version'', ''1.0.0'')],
                   [(''model_id'', ''x-tcembedding-y'')],
                   [(''version'', ''1.0.1''), (''model_id'', ''a-eqa-b'')]] = Inr [''a-eqa-b'']"
proof -
  let ?ml = "[[(''model_id'', ''a-eqa-b''), (''version'', ''1.0.0'')],
                   [(''model_id'', ''x-tcembedding-y'')],
                   [(''version'', ''1.0.1''), (''model_id'', ''a-eqa-b'')]]"
  have h: "\<forall>model\<in>set ?ml. map_of model ''model_id'' \<noteq> None" by simp
  have e: "eqa_models ?ml = Inr [''a-eqa-b'']" by code_simp
  from manifest_filter_first_occurrences[OF h] e show ?thesis by auto
qed

section \<open>Verification: the response parsers\<close>

lemma ptuple_neq: "PTuple [v] \<noteq> v"
proof
  assume "PTuple [v] = v"
  then have "size (PTuple [v]) = size v" by simp
  then show False by simp
qed

text \<open>
  Claim C10. In the question answering notebook, for a response that decodes to a JSON
  object with the key \<open>answer\<close>, \<open>parse_response\<close> returns a tuple of length one whose
  only item is the value stored under \<open>answer\<close>, not that value itself. The pre-trained
  and the fine-tuned cells define the same function.
\<close>

theorem parse_response_eqa_one_tuple:
  assumes "json_loads query_response = Inr (PDict d)" and "map_of d ''answer'' = Some v"
  shows "parse_response_eqa json_loads query_response = Inr (PTuple [v]) \<and>
         parse_response_eqa json_loads query_response \<noteq> Inr v"
  using assms ptuple_neq[of v] by (simp add: parse_response_eqa_def)

theorem parse_response_eqa_one_tuple_witness:
  "parse_response_eqa (\<lambda>q. Inr (PDict [(''answer'', PStr ''SoCal''), (''score'', PInt 1)])) [] =
     Inr (PTuple [PStr ''SoCal'' :: unit pyval]) \<and>
   parse_response_eqa (\<lambda>q. Inr (PDict [(''answer'', PStr ''SoCal''), (''score'', PInt 1)])) [] \<noteq>
     Inr (PStr ''SoCal'' :: unit pyval)"
  using parse_response_eqa_one_tuple[of "\<lambda>q. Inr (PDict [(''answer'', PStr ''SoCal''), (''score'', PInt 1)])"
      "[]" "[(''answer'', PStr ''SoCal''), (''score'', PInt 1)]" "PStr ''SoCal'' :: unit pyval"]
  by simp







section \<open>Verification: the query helpers\<close>

lemma recording_log:
  "recording f x (log, w) = (fst (f x w), (log @ [x], snd (f x w)))"
  by (simp add: recording_def split: prod.splits)

lemma passing_log:
  "passing f x (log, w) = (fst (f x w), (log, snd (f x w)))"
  by (simp add: passing_def split: prod.splits)

lemma query_image_log:
  "fst (snd (query_image accept (passing read_file) (recording predict) name (log, w))) =
     (case fst (read_file name w) of
        Inl e \<Rightarrow> log
      | Inr img \<Rightarrow> log @ [(img, [(''ContentType'', ''application/x-image''), (''Accept'', accept)])])"
  by (simp add: query_image_def recording_log passing_log split: prod.splits sum.splits)

lemma query_endpoint_tabular_log:
  "fst (snd (query_endpoint_tabular (passing boto3_client) (recording invoke_endpoint)
                      endpoint_name data (log, w))) =
     (case fst (boto3_client ''runtime.sagemaker'' w) of
        Inl e \<Rightarrow> log
      | Inr c \<Rightarrow> log @ [(c, \<lparr>EndpointName = endpoint_name, ContentType = ''text/csv'', Body = data\<rparr>)])"
  by (simp add: query_endpoint_tabular_def content_type_def recording_log passing_log
      split: prod.splits sum.splits)

lemma query_text_log:
  "fst (snd (query_text (recording predict) json_dumps encode_utf8 text (log, w))) =
     log @ [(encode_utf8 (json_dumps text),
             [(''ContentType'', ''application/x-text''), (''Accept'', ''application/json'')])]"
  by (simp add: query_text_def recording_log Let_def)

lemma query_endpoint_eqa_log:
  "fst (snd (query_endpoint_eqa (recording predict) encoded_text (log, w))) =
     log @ [(encoded_text,
             [(''ContentType'', ''application/list-text''), (''Accept'', ''application/json;verbose'')])]"
  by (simp add: query_endpoint_eqa_def recording_log Let_def)

text \<open>
  Claim C6 says that every invocation of a query helper issues exactly one call to
  \<open>predict\<close> or \<open>invoke_endpoint\<close>. The helpers of the image notebooks read the image
  file first: when the file cannot be read, they raise before any call is issued.
\<close>

theorem query_issues_one_call_counterexample:
  "fst (snd (query_is (passing (\<lambda>name w. (Inl (OSError name), w)))
                      (recording (\<lambda>request w. (Inr [], w)))
                      ''img_missing.png'' ([], ()))) = []"
  by (simp add: query_is_def query_image_log)

text \<open>
  Claim C6, amended. No query helper retries: whatever the response, a helper issues at
  most one call to \<open>predict\<close> or \<open>invoke_endpoint\<close>. The helpers that take text issue
  exactly one; the image helpers issue one when the file is read and none when reading
  raises; the tabular helper issues one when the client is built and none when building
  it raises. The retry configuration (50 attempts, adaptive mode) is an argument of the
  one call that builds the SageMaker client.
\<close>

theorem query_helpers_call_count:
  "length (fst (snd (query_text (recording predict) json_dumps encode_utf8 text (log, w)))) =
     length log + 1 \<and>
   length (fst (snd (query_endpoint_eqa (recording predict) encoded_text (log, w)))) =
     length log + 1 \<and>
   length (fst (snd (query_image accept (passing read_file) (recording predict) name (log, w)))) =
     (case fst (read_file name w) of Inl e \<Rightarrow> length log | Inr img \<Rightarrow> length log + 1) \<and>
   length (fst (snd (query_endpoint_tabular (passing boto3_client) (recording invoke_endpoint)
                      endpoint_name data (ilog, w)))) =
     (case fst (boto3_client ''runtime.sagemaker'' w) of Inl e \<Rightarrow> length ilog | Inr c \<Rightarrow> length ilog + 1) \<and>
   fst (snd (sm_client (recording boto3_client_config) (clog, w))) =
     clog @ [(''sagemaker'', Some \<lparr>max_attempts = 50, mode = ''adaptive''\<rparr>)]"
proof (intro conjI)
  show "fst (snd (sm_client (recording boto3_client_config) (clog, w))) =
     clog @ [(''sagemaker'', Some \<lparr>max_attempts = 50, mode = ''adaptive''\<rparr>)]"
    by (simp add: sm_client_def config_def recording_log)
qed (simp_all add: query_text_log query_endpoint_eqa_log query_image_log query_endpoint_tabular_log
      split: sum.splits)

lemma json_accept_values:
  "json_accept ''application/json''" "json_accept ''application/json;verbose''"
  "json_accept ''application/json;verbose;n_predictions=2''"
  by (simp_all add: json_accept_def is_digit_def)

text \<open>
  Claim C7. Every request a query helper sends carries a byte-string body (the encoded
  JSON text, the bytes read from the image file, or the encoded CSV text) and names the
  input format in \<open>ContentType\<close>, one of the four content types; the helpers that call
  \<open>predict\<close> also send an \<open>Accept\<close> header of the JSON form.
\<close>

theorem query_helpers_select_format:
  "fst (snd (query_text (recording predict) json_dumps encode_utf8 text ([], w))) =
     [(encode_utf8 (json_dumps text),
       [(''ContentType'', ''application/x-text''), (''Accept'', ''application/json'')])] \<and>
   fst (snd (eqa_query_call (recording predict) dumps_list encode_utf8 question_context ([], w))) =
     [(encode_utf8 (dumps_list question_context),
       [(''ContentType'', ''application/list-text''), (''Accept'', ''application/json;verbose'')])] \<and>
   fst (snd (query_is (passing read_file) (recording predict) name ([], w))) =
     (case fst (read_file name w) of
        Inl e \<Rightarrow> []
      | Inr img \<Rightarrow> [(img, [(''ContentType'', ''application/x-image''),
                          (''Accept'', ''application/json;verbose;n_predictions=2'')])]) \<and>
   fst (snd (query_semseg (passing read_file) (recording predict) name ([], w))) =
     (case fst (read_file name w) of
        Inl e \<Rightarrow> []
      | Inr img \<Rightarrow> [(img, [(''ContentType'', ''application/x-image''),
                          (''Accept'', ''application/json;verbose'')])]) \<and>
   fst (snd (query_image_embedding (passing read_file) (recording predict) name ([], w))) =
     (case fst (read_file name w) of
        Inl e \<Rightarrow> []
      | Inr img \<Rightarrow> [(img, [(''ContentType'', ''application/x-image''),
                          (''Accept'', ''application/json'')])]) \<and>
   fst (snd (tabular_query_call (passing boto3_client) (recording invoke_endpoint) endpoint_name
               encode_utf8 features_csv ([], w))) =
     (case fst (boto3_client ''runtime.sagemaker'' w) of
        Inl e \<Rightarrow> []
      | Inr c \<Rightarrow> [(c, \<lparr>EndpointName = endpoint_name, ContentType = ''text/csv'',
                        Body = encode_utf8 features_csv\<rparr>)]) \<and>
   selects_format [(''ContentType'', ''application/x-text''), (''Accept'', ''application/json'')] \<and>
   selects_format [(''ContentType'', ''application/list-text''), (''Accept'', ''application/json;verbose'')] \<and>
   selects_format [(''ContentType'', ''application/x-image''),
                   (''Accept'', ''application/json;verbose;n_predictions=2'')] \<and>
   selects_format [(''ContentType'', ''application/x-image''), (''Accept'', ''application/json;verbose'')] \<and>
   selects_format [(''ContentType'', ''application/x-image''), (''Accept'', ''application/json'')] \<and>
   ''text/csv'' \<in> input_content_types"
proof (intro conjI)
  show "fst (snd (query_text (recording predict) json_dumps encode_utf8 text ([], w))) =
     [(encode_utf8 (json_dumps text),
       [(''ContentType'', ''application/x-text''), (''Accept'', ''application/json'')])]"
    by (simp add: query_text_log)
  show "fst (snd (eqa_query_call (recording predict) dumps_list encode_utf8 question_context ([], w))) =
     [(encode_utf8 (dumps_list question_context),
       [(''ContentType'', ''application/list-text''), (''Accept'', ''application/json;verbose'')])]"
    by (simp add: eqa_query_call_def query_endpoint_eqa_log)
  show "fst (snd (tabular_query_call (passing boto3_client) (recording invoke_endpoint) endpoint_name
               encode_utf8 features_csv ([], w))) =
     (case fst (boto3_client ''runtime.sagemaker'' w) of
        Inl e \<Rightarrow> []
      | Inr c \<Rightarrow> [(c, \<lparr>EndpointName = endpoint_name, ContentType = ''text/csv'',
                        Body = encode_utf8 features_csv\<rparr>)])"
    by (simp add: tabular_query_call_def query_endpoint_tabular_log split: sum.splits)
qed (simp_all add: query_is_def query_semseg_def query_image_embedding_def query_image_log
      selects_format_def input_content_types_def json_accept_values split: sum.splits)

section \<open>Verification: the lineage notebook\<close>

lemma tracing_log:
  "tracing f x (log, w) = (fst (f x w), (log @ [(x, fst (f x w))], snd (f x w)))"
  by (simp add: tracing_def split: prod.splits)

lemma source_uri_loop_step:
  "source_uri_loop tlo src (v # vs) acc w =
     (case source_uri_of src (fst (tlo v w)) of
        Inl e \<Rightarrow> (Inl e, snd (tlo v w))
      | Inr uri \<Rightarrow> source_uri_loop tlo src vs (acc @ [uri]) (snd (tlo v w)))"
  by (simp add: source_uri_of_def split: prod.splits sum.splits)

lemma source_uri_or_arn_loop_step:
  "source_uri_or_arn_loop tlo src arn (v # vs) acc w =
     source_uri_or_arn_loop tlo src arn vs
       (acc @ [case source_uri_of src (fst (tlo v w)) of Inl e \<Rightarrow> arn v | Inr uri \<Rightarrow> uri])
       (snd (tlo v w))"
  by (auto simp: source_uri_of_def split: prod.splits sum.splits)

lemma source_uri_loop_append:
  "source_uri_loop tlo src (xs @ ys) acc w =
     (case source_uri_loop tlo src xs acc w of
        (Inl e, w') \<Rightarrow> (Inl e, w')
      | (Inr found, w') \<Rightarrow> source_uri_loop tlo src ys found w')"
proof (induction xs arbitrary: acc w)
  case Nil
  show ?case by simp
next
  case (Cons x xs)
  show ?case
    unfolding append_Cons source_uri_loop_step
    by (cases "source_uri_of src (fst (tlo x w))") (simp_all add: Cons)
qed

lemma associations_one_loop:
  "associations tlo src d a w = source_uri_loop tlo src (vertices d @ vertices a) [] w"
  by (simp add: associations_def source_uri_loop_append)

lemma source_uri_loop_trace:
  "\<exists>tr. fst (snd (source_uri_loop (tracing tlo) src vs acc (log, w))) = log @ tr \<and>
     map fst tr = take (length tr) vs \<and>
     (case fst (source_uri_loop (tracing tlo) src vs acc (log, w)) of
        Inr out \<Rightarrow> map fst tr = vs \<and>
          map Inr out = map Inr acc @ map (\<lambda>(v, res). source_uri_of src res) tr
      | Inl e \<Rightarrow> tr \<noteq> [] \<and> source_uri_of src (snd (last tr)) = Inl e \<and>
          list_all (\<lambda>(v, res). \<not> isl (source_uri_of src res)) (butlast tr))"
proof (induction vs arbitrary: acc log w)
  case Nil
  show ?case by simp
next
  case (Cons v vs)
  let ?res = "fst (tlo v w)"
  let ?w = "snd (tlo v w)"
  show ?case
  proof (cases "source_uri_of src ?res")
    case (Inl e)
    then have "source_uri_loop (tracing tlo) src (v # vs) acc (log, w) =
        (Inl e, (log @ [(v, ?res)], ?w))"
      unfolding source_uri_loop_step by (simp add: tracing_log)
    then show ?thesis using Inl by (intro exI[of _ "[(v, ?res)]"]) simp
  next
    case (Inr uri)
    then have step: "source_uri_loop (tracing tlo) src (v # vs) acc (log, w) =
        source_uri_loop (tracing tlo) src vs (acc @ [uri]) (log @ [(v, ?res)], ?w)"
      unfolding source_uri_loop_step by (simp add: tracing_log)
    from Cons[of "acc @ [uri]" "log @ [(v, ?res)]" ?w] obtain tr where
      tr: "fst (snd (source_uri_loop (tracing tlo) src vs (acc @ [uri]) (log @ [(v, ?res)], ?w))) =
             (log @ [(v, ?res)]) @ tr"
          "map fst tr = take (length tr) vs"
          "(case fst (source_uri_loop (tracing tlo) src vs (acc @ [uri]) (log @ [(v, ?res)], ?w)) of
              Inr out \<Rightarrow> map fst tr = vs \<and>
                map Inr out = map Inr (acc @ [uri]) @ map (\<lambda>(v, res). source_uri_of src res) tr
            | Inl e \<Rightarrow> tr \<noteq> [] \<and> source_uri_of src (snd (last tr)) = Inl e \<and>
                list_all (\<lambda>(v, res). \<not> isl (source_uri_of src res)) (butlast tr))"
      by blast
    show ?thesis
      unfolding step
      using tr Inr
      by (intro exI[of _ "(v, ?res) # tr"]) (auto split: sum.splits)
  qed
qed

lemma source_uri_or_arn_loop_trace:
  "\<exists>tr. fst (snd (source_uri_or_arn_loop (tracing tlo) src arn vs acc (log, w))) = log @ tr \<and>
     map fst tr = vs \<and>
     fst (source_uri_or_arn_loop (tracing tlo) src arn vs acc (log, w)) =
       Inr (acc @ map (\<lambda>(v, res). case source_uri_of src res of Inl e \<Rightarrow> arn v | Inr uri \<Rightarrow> uri) tr)"
proof (induction vs arbitrary: acc log w)
  case Nil
  show ?case by simp
next
  case (Cons v vs)
  let ?res = "fst (tlo v w)"
  let ?w = "snd (tlo v w)"
  let ?x = "case source_uri_of src ?res of Inl e \<Rightarrow> arn v | Inr uri \<Rightarrow> uri"
  have step: "source_uri_or_arn_loop (tracing tlo) src arn (v # vs) acc (log, w) =
      source_uri_or_arn_loop (tracing tlo) src arn vs (acc @ [?x]) (log @ [(v, ?res)], ?w)"
    unfolding source_uri_or_arn_loop_step by (simp add: tracing_log)
  from Cons[of "acc @ [?x]" "log @ [(v, ?res)]" ?w] obtain tr where
    tr: "fst (snd (source_uri_or_arn_loop (tracing tlo) src arn vs (acc @ [?x]) (log @ [(v, ?res)], ?w))) =
           (log @ [(v, ?res)]) @ tr"
        "map fst tr = vs"
        "fst (source_uri_or_arn_loop (tracing tlo) src arn vs (acc @ [?x]) (log @ [(v, ?res)], ?w)) =
           Inr ((acc @ [?x]) @ map (\<lambda>(v, res). case source_uri_of src res of Inl e \<Rightarrow> arn v | Inr uri \<Rightarrow> uri) tr)"
    by blast
  show ?case
    unfolding step using tr by (intro exI[of _ "(v, ?res) # tr"]) simp
qed

lemma source_uri_or_arn_loop_pure:
  "source_uri_or_arn_loop (\<lambda>v w. (g v, w)) src arn vs acc w =
     (Inr (acc @ map (\<lambda>v. case source_uri_of src (g v) of Inl e \<Rightarrow> arn v | Inr uri \<Rightarrow> uri) vs), w)"
proof (induction vs arbitrary: acc)
  case Nil
  show ?case by simp
next
  case (Cons v vs)
  show ?case unfolding source_uri_or_arn_loop_step by (simp add: Cons)
qed

lemma source_uri_loop_pure:
  "source_uri_loop (\<lambda>v w. (g v, w)) src vs acc w =
     (case find (\<lambda>v. isl (source_uri_of src (g v))) vs of
        Some v \<Rightarrow> Inl (projl (source_uri_of src (g v)))
      | None \<Rightarrow> Inr (acc @ map (\<lambda>v. projr (source_uri_of src (g v))) vs), w)"
proof (induction vs arbitrary: acc)
  case Nil
  show ?case by simp
next
  case (Cons v vs)
  show ?case
    unfolding source_uri_loop_step
    by (cases "source_uri_of src (g v)") (simp_all add: Cons split: option.splits)
qed

lemma arn_loop_map: "arn_loop arn vs acc = acc @ map arn vs"
  by (induction vs arbitrary: acc) auto

lemma plain_pass:
  "let run = source_uri_loop (tracing tlo) src vs [] ([], w); tr = fst (snd run)
   in map fst tr = take (length tr) vs \<and>
      (case fst run of
         Inr out \<Rightarrow> map fst tr = vs \<and> map Inr out = map (\<lambda>(v, res). source_uri_of src res) tr
       | Inl e \<Rightarrow> tr \<noteq> [] \<and> source_uri_of src (snd (last tr)) = Inl e \<and>
           list_all (\<lambda>(v, res). \<not> isl (source_uri_of src res)) (butlast tr))"
proof -
  from source_uri_loop_trace[of tlo src vs "[]" "[]" w] obtain tr where
    tr: "fst (snd (source_uri_loop (tracing tlo) src vs [] ([], w))) = tr"
        "map fst tr = take (length tr) vs"
        "(case fst (source_uri_loop (tracing tlo) src vs [] ([], w)) of
            Inr out \<Rightarrow> map fst tr = vs \<and>
              map Inr out = map Inr [] @ map (\<lambda>(v, res). source_uri_of src res) tr
          | Inl e \<Rightarrow> tr \<noteq> [] \<and> source_uri_of src (snd (last tr)) = Inl e \<and>
              list_all (\<lambda>(v, res). \<not> isl (source_uri_of src res)) (butlast tr))"
    by auto
  show ?thesis
    unfolding Let_def tr(1) using tr(2,3)
    by (cases "fst (source_uri_loop (tracing tlo) src vs [] ([], w))") simp_all
qed

text \<open>
  Claim C4. The post-processing of a lineage query result is one pass over its vertex
  list: \<open>to_lineage_object\<close> is called on the vertices in list order, each at most once
  (a prefix of the list, and the whole list when the pass does not raise); the result
  holds, for each vertex in turn, the source URI of its lineage object, or in the loops
  with a handler its ARN when that fails, or in the loop over trial components its ARN;
  the edges of the result are not read.
\<close>

theorem lineage_single_linear_pass:
  "(let run = dataset_artifacts (tracing tlo) src qr ([], w); tr = fst (snd run)
    in map fst tr = take (length tr) (vertices qr) \<and>
       (case fst run of
          Inr out \<Rightarrow> map fst tr = vertices qr \<and>
            map Inr out = map (\<lambda>(v, res). source_uri_of src res) tr
        | Inl e \<Rightarrow> tr \<noteq> [] \<and> source_uri_of src (snd (last tr)) = Inl e)) \<and>
   (let run = associations (tracing tlo) src qr qr' ([], w); tr = fst (snd run)
    in map fst tr = take (length tr) (vertices qr @ vertices qr') \<and>
       (case fst run of
          Inr out \<Rightarrow> map fst tr = vertices qr @ vertices qr' \<and>
            map Inr out = map (\<lambda>(v, res). source_uri_of src res) tr
        | Inl e \<Rightarrow> tr \<noteq> [] \<and> source_uri_of src (snd (last tr)) = Inl e)) \<and>
   (let run = ascendant_artifacts (tracing tlo) src arn qr ([], w); tr = fst (snd run)
    in map fst tr = vertices qr \<and>
       fst run =
         Inr (map (\<lambda>(v, res). case source_uri_of src res of Inl e \<Rightarrow> arn v | Inr uri \<Rightarrow> uri) tr)) \<and>
   dataset_artifacts (\<lambda>v w. (g v, w)) src qr w =
     (case find (\<lambda>v. isl (source_uri_of src (g v))) (vertices qr) of
        Some v \<Rightarrow> Inl (projl (source_uri_of src (g v)))
      | None \<Rightarrow> Inr (map (\<lambda>v. projr (source_uri_of src (g v))) (vertices qr)), w) \<and>
   associations (\<lambda>v w. (g v, w)) src qr qr' w =
     (case find (\<lambda>v. isl (source_uri_of src (g v))) (vertices qr @ vertices qr') of
        Some v \<Rightarrow> Inl (projl (source_uri_of src (g v)))
      | None \<Rightarrow> Inr (map (\<lambda>v. projr (source_uri_of src (g v))) (vertices qr @ vertices qr')), w) \<and>
   ascendant_artifacts (\<lambda>v w. (g v, w)) src arn qr w =
     (Inr (map (\<lambda>v. case source_uri_of src (g v) of Inl e \<Rightarrow> arn v | Inr uri \<Rightarrow> uri)
            (vertices qr)), w) \<and>
   trial_components arn qr = map arn (vertices qr) \<and>
   model_artifacts tlo src qr w = dataset_artifacts tlo src qr w \<and>
   descendant_artifacts tlo src arn qr w = ascendant_artifacts tlo src arn qr w \<and>
   dataset_artifacts tlo src (qr\<lparr>edges := es\<rparr>) w = dataset_artifacts tlo src qr w \<and>
   associations tlo src (qr\<lparr>edges := es\<rparr>) (qr'\<lparr>edges := es'\<rparr>) w = associations tlo src qr qr' w \<and>
   ascendant_artifacts tlo src arn (qr\<lparr>edges := es\<rparr>) w = ascendant_artifacts tlo src arn qr w \<and>
   trial_components arn (qr\<lparr>edges := es\<rparr>) = trial_components arn qr"
proof (intro conjI)
  show "let run = dataset_artifacts (tracing tlo) src qr ([], w); tr = fst (snd run)
    in map fst tr = take (length tr) (vertices qr) \<and>
       (case fst run of
          Inr out \<Rightarrow> map fst tr = vertices qr \<and>
            map Inr out = map (\<lambda>(v, res). source_uri_of src res) tr
        | Inl e \<Rightarrow> tr \<noteq> [] \<and> source_uri_of src (snd (last tr)) = Inl e)"
    using plain_pass[of tlo src "vertices qr" w]
    unfolding dataset_artifacts_def Let_def
    by (cases "fst (source_uri_loop (tracing tlo) src (vertices qr) [] ([], w))")
       (simp_all only: sum.case, metis+)
  show "let run = associations (tracing tlo) src qr qr' ([], w); tr = fst (snd run)
    in map fst tr = take (length tr) (vertices qr @ vertices qr') \<and>
       (case fst run of
          Inr out \<Rightarrow> map fst tr = vertices qr @ vertices qr' \<and>
            map Inr out = map (\<lambda>(v, res). source_uri_of src res) tr
        | Inl e \<Rightarrow> tr \<noteq> [] \<and> source_uri_of src (snd (last tr)) = Inl e)"
    using plain_pass[of tlo src "vertices qr @ vertices qr'" w]
    unfolding associations_one_loop Let_def
    by (cases "fst (source_uri_loop (tracing tlo) src (vertices qr @ vertices qr') [] ([], w))")
       (simp_all only: sum.case, metis+)
  show "let run = ascendant_artifacts (tracing tlo) src arn qr ([], w); tr = fst (snd run)
    in map fst tr = vertices qr \<and>
       fst run =
         Inr (map (\<lambda>(v, res). case source_uri_of src res of Inl e \<Rightarrow> arn v | Inr uri \<Rightarrow> uri) tr)"
    using source_uri_or_arn_loop_trace[of tlo src arn "vertices qr" "[]" "[]" w]
    by (auto simp: ascendant_artifacts_def Let_def)
  show "dataset_artifacts (\<lambda>v w. (g v, w)) src qr w =
     (case find (\<lambda>v. isl (source_uri_of src (g v))) (vertices qr) of
        Some v \<Rightarrow> Inl (projl (source_uri_of src (g v)))
      | None \<Rightarrow> Inr (map (\<lambda>v. projr (source_uri_of src (g v))) (vertices qr)), w)"
    by (simp add: dataset_artifacts_def source_uri_loop_pure split: option.splits)
  show "associations (\<lambda>v w. (g v, w)) src qr qr' w =
     (case find (\<lambda>v. isl (source_uri_of src (g v))) (vertices qr @ vertices qr') of
        Some v \<Rightarrow> Inl (projl (source_uri_of src (g v)))
      | None \<Rightarrow> Inr (map (\<lambda>v. projr (source_uri_of src (g v))) (vertices qr @ vertices qr')), w)"
    unfolding associations_one_loop source_uri_loop_pure by (simp split: option.splits)
  show "ascendant_artifacts (\<lambda>v w. (g v, w)) src arn qr w =
     (Inr (map (\<lambda>v. case source_uri_of src (g v) of Inl e \<Rightarrow> arn v | Inr uri \<Rightarrow> uri)
            (vertices qr)), w)"
    by (simp add: ascendant_artifacts_def source_uri_or_arn_loop_pure)
  show "trial_components arn qr = map arn (vertices qr)"
    by (simp add: trial_components_def arn_loop_map)
qed (simp_all add: model_artifacts_def dataset_artifacts_def descendant_artifacts_def
      ascendant_artifacts_def associations_def trial_components_def split: prod.splits sum.splits)

theorem lineage_single_linear_pass_witness:
  "dataset_artifacts (tracing (\<lambda>v w. (if v = ''trial'' then Inl ValueError else Inr v, w)))
        (\<lambda>obj. Inr (''s3://'' @ obj))
        \<lparr>vertices = [''data'', ''trial'', ''model''], edges = [(0::nat, 1::nat)]\<rparr> ([], ()) =
     (Inl ValueError, ([(''data'', Inr ''data''), (''trial'', Inl ValueError)], ())) \<and>
   associations (tracing (\<lambda>v w. (if v = ''trial'' then Inl ValueError else Inr v, w)))
        (\<lambda>obj. Inr (''s3://'' @ obj))
        \<lparr>vertices = [''endpoint''], edges = [(0::nat, 1::nat)]\<rparr>
        \<lparr>vertices = [''data''], edges = []\<rparr> ([], ()) =
     (Inr [''s3://endpoint'', ''s3://data''],
      ([(''endpoint'', Inr ''endpoint''), (''data'', Inr ''data'')], ())) \<and>
   ascendant_artifacts (\<lambda>v w. (if v = ''trial'' then Inl ValueError else Inr v, w))
        (\<lambda>obj. Inr (''s3://'' @ obj)) (\<lambda>v. ''arn:'' @ v)
        \<lparr>vertices = [''data'', ''trial'', ''model''], edges = [(0::nat, 1::nat)]\<rparr> () =
     (Inr [''s3://data'', ''arn:trial'', ''s3://model''], ())"
proof -
  let ?g = "\<lambda>v. if v = ''trial'' then Inl ValueError else Inr v :: py_error + string"
  let ?tlo = "\<lambda>v (w::unit). (?g v, w)"
  let ?src = "\<lambda>obj. Inr (''s3://'' @ obj) :: py_error + string"
  let ?qr = "\<lparr>vertices = [''data'', ''trial'', ''model''], edges = [(0::nat, 1::nat)]\<rparr>"
  have d: "dataset_artifacts (tracing ?tlo) ?src ?qr ([], ()) =
     (Inl ValueError, ([(''data'', Inr ''data''), (''trial'', Inl ValueError)], ()))"
    by (simp add: dataset_artifacts_def tracing_def)
  have a: "associations (tracing ?tlo) ?src
        \<lparr>vertices = [''endpoint''], edges = [(0::nat, 1::nat)]\<rparr>
        \<lparr>vertices = [''data''], edges = []\<rparr> ([], ()) =
     (Inr [''s3://endpoint'', ''s3://data''],
      ([(''endpoint'', Inr ''endpoint''), (''data'', Inr ''data'')], ()))"
    by (simp add: associations_def tracing_def)
  from lineage_single_linear_pass[where src = ?src and arn = "\<lambda>v. ''arn:'' @ v" and qr = ?qr
      and w = "()" and g = ?g]
  have "ascendant_artifacts ?tlo ?src (\<lambda>v. ''arn:'' @ v) ?qr () =
     (Inr [''s3://data'', ''arn:trial'', ''s3://model''], ())"
    by (simp add: source_uri_of_def)
  with d a show ?thesis by simp
qed

section \<open>Verification: failures and recovery\<close>




















section \<open>Verification: the order of the calls\<close>



























section \<open>Verification: the palette as an algorithm\<close>





end
